theory Spec2Isabelle
  imports Complex_Main "HOL-Library.AList" "HOL-Library.Sublist" "HOL-Library.Log_Nat"
begin

section \<open>Task 1 (university\_map.py): geometry adapter\<close>

text \<open>
  Exceptions of the Python code are values: a function that can raise returns
  \<open>error + 'a\<close>, with \<open>Inl\<close> for the exception.
\<close>

datatype error = KeyError | IndexError | ValueError

text \<open>
  A GeoJSON position is a list of numbers, a linear ring a list of positions, the
  coordinates of a Polygon a list of rings and those of a MultiPolygon a list of such
  lists. A geometry is the tagged union of the GeoJSON geometry types; the tag is the
  value of the \<open>type\<close> key that the code compares with string literals. Coordinates are
  idealised as real numbers.
\<close>

type_synonym position = "real list"
type_synonym ring = "position list"

datatype geometry =
    Point position
  | MultiPoint "position list"
  | LineString "position list"
  | MultiLineString "position list list"
  | Polygon "ring list"
  | MultiPolygon "ring list list"
  | GeometryCollection "geometry list"

fun geometry_type :: "geometry \<Rightarrow> string" where
  "geometry_type (Point _) = ''Point''"
| "geometry_type (MultiPoint _) = ''MultiPoint''"
| "geometry_type (LineString _) = ''LineString''"
| "geometry_type (MultiLineString _) = ''MultiLineString''"
| "geometry_type (Polygon _) = ''Polygon''"
| "geometry_type (MultiPolygon _) = ''MultiPolygon''"
| "geometry_type (GeometryCollection _) = ''GeometryCollection''"

text \<open>
  Python's \<open>xs[i]\<close> for a non-negative literal \<open>i\<close>: IndexError when out of range.
\<close>

definition item :: "'a list \<Rightarrow> nat \<Rightarrow> error + 'a" where
  "item xs i = (if i < length xs then Inr (xs ! i) else Inl IndexError)"

text \<open>
  The list comprehension \<open>[coord[i] for coord in coords]\<close>: the first position that is
  too short raises.
\<close>

fun column_of :: "nat \<Rightarrow> ring \<Rightarrow> error + real list" where
  "column_of i [] = Inr []"
| "column_of i (coord # coords) =
     (case item coord i of
        Inl e \<Rightarrow> Inl e
      | Inr v \<Rightarrow> (case column_of i coords of Inl e \<Rightarrow> Inl e | Inr vs \<Rightarrow> Inr (v # vs)))"

text \<open>
  \<open>np.mean\<close> of a list of numbers. Of an empty list it is \<open>nan\<close> (with a warning, no
  exception); \<open>None\<close> stands for \<open>nan\<close>. The mean is the exact one: the rounding of
  numpy's floating point summation is left out.
\<close>

type_synonym npfloat = "real option"

definition np_mean :: "real list \<Rightarrow> npfloat" where
  "np_mean xs = (if xs = [] then None else Some (sum_list xs / real (length xs)))"

text \<open>
  A shapely point, by its coordinates. \<open>Point(coords)\<close> takes a position of two or three
  numbers and rejects any other; \<open>Point(x, y)\<close> takes the two numbers.
\<close>

datatype spoint = SPoint "npfloat list"

definition Point_of_position :: "position \<Rightarrow> error + spoint" where
  "Point_of_position coords =
     (if length coords = 2 \<or> length coords = 3 then Inr (SPoint (map Some coords))
      else Inl ValueError)"

definition Point_xy :: "npfloat \<Rightarrow> npfloat \<Rightarrow> spoint" where
  "Point_xy x y = SPoint [x, y]"

text \<open>
  The vertex mean of a ring, shared by the Polygon and the MultiPolygon branch of
  \<open>get_geometry_center\<close> (the two branches repeat the same two lines).
\<close>

definition mean_point :: "ring \<Rightarrow> error + spoint" where
  "mean_point coords =
     (case column_of 0 coords of
        Inl e \<Rightarrow> Inl e
      | Inr xs \<Rightarrow>
          (case column_of 1 coords of
             Inl e \<Rightarrow> Inl e
           | Inr ys \<Rightarrow> Inr (Point_xy (np_mean xs) (np_mean ys))))"

text \<open>
  \<open>get_geometry_center\<close>: the result \<open>Inr None\<close> is Python's \<open>None\<close>, returned for every
  type that none of the three branches names.
\<close>

fun get_geometry_center :: "geometry \<Rightarrow> error + spoint option" where
  "get_geometry_center (Point coordinates) =
     (case Point_of_position coordinates of Inl e \<Rightarrow> Inl e | Inr p \<Rightarrow> Inr (Some p))"
| "get_geometry_center (Polygon coordinates) =
     (case item coordinates 0 of
        Inl e \<Rightarrow> Inl e
      | Inr coords \<Rightarrow> (case mean_point coords of Inl e \<Rightarrow> Inl e | Inr p \<Rightarrow> Inr (Some p)))"
| "get_geometry_center (MultiPolygon coordinates) =
     (case item coordinates 0 of
        Inl e \<Rightarrow> Inl e
      | Inr poly \<Rightarrow>
          (case item poly 0 of
             Inl e \<Rightarrow> Inl e
           | Inr coords \<Rightarrow>
               (case mean_point coords of Inl e \<Rightarrow> Inl e | Inr p \<Rightarrow> Inr (Some p))))"
| "get_geometry_center _ = Inr None"


section \<open>Task 1: containment aggregator\<close>

text \<open>
  \<open>uni_center.x\<close> and \<open>uni_center.y\<close>.
\<close>

fun point_x :: "spoint \<Rightarrow> npfloat" where
  "point_x (SPoint (x # _)) = x"
| "point_x (SPoint []) = None"

fun point_y :: "spoint \<Rightarrow> npfloat" where
  "point_y (SPoint (_ # y # _)) = y"
| "point_y (SPoint _) = None"

text \<open>
  The truth value of \<open>uni_center\<close> in \<open>if uni_center and ...\<close>: \<open>None\<close> is false, and a
  shapely geometry is true unless it is empty. The empty point is the one whose
  coordinates are \<open>nan\<close>, which is what the mean of an empty ring gives.
\<close>

fun truthy :: "spoint option \<Rightarrow> bool" where
  "truthy None = False"
| "truthy (Some p) = (point_x p \<noteq> None \<and> point_y p \<noteq> None)"

text \<open>
  \<open>point_in_polygon\<close> builds \<open>Point(point)\<close> and \<open>Polygon(polygon_coords)\<close> and asks shapely
  whether the polygon contains the point. Building the polygon and the predicate
  \<open>contains\<close> belong to shapely, not to this repository: they are the parameter
  \<open>contains\<close>, which may raise (a ring of too few positions) or answer.
\<close>

type_synonym contains_prim = "ring \<Rightarrow> real \<times> real \<Rightarrow> error + bool"

definition point_in_polygon :: "contains_prim \<Rightarrow> real \<times> real \<Rightarrow> ring \<Rightarrow> error + bool" where
  "point_in_polygon contains point polygon_coords = contains polygon_coords point"

text \<open>
  A GeoJSON feature: its properties (a dictionary) and its geometry.
\<close>

record 'v feature =
  properties :: "string \<rightharpoonup> 'v"
  geometry :: geometry

text \<open>
  The entry stored for a region.
\<close>

record 'v region_entry =
  count :: nat
  universities :: "'v feature list"
  region :: "'v feature"

text \<open>
  The coordinates of the region's polygon: the first ring of a Polygon; for a
  MultiPolygon the first rings of all its polygons, one after the other; any other type
  makes the loop \<open>continue\<close> with the next region.
\<close>

datatype region_coords = Coords ring | Continue | Raise error

fun extend_all :: "ring list list \<Rightarrow> error + ring" where
  "extend_all [] = Inr []"
| "extend_all (poly # polys) =
     (case item poly 0 of
        Inl e \<Rightarrow> Inl e
      | Inr r \<Rightarrow> (case extend_all polys of Inl e \<Rightarrow> Inl e | Inr all_coords \<Rightarrow> Inr (r @ all_coords)))"

fun region_polygon_coords :: "geometry \<Rightarrow> region_coords" where
  "region_polygon_coords (Polygon coordinates) =
     (case item coordinates 0 of Inl e \<Rightarrow> Raise e | Inr r \<Rightarrow> Coords r)"
| "region_polygon_coords (MultiPolygon coordinates) =
     (case extend_all coordinates of Inl e \<Rightarrow> Raise e | Inr all_coords \<Rightarrow> Coords all_coords)"
| "region_polygon_coords _ = Continue"

text \<open>
  The condition of the inner loop for one university:
  \<open>uni_center and point_in_polygon([uni_center.x, uni_center.y], polygon_coords)\<close>.
  \<open>and\<close> does not evaluate its second operand when the first is false.
\<close>

definition university_in :: "contains_prim \<Rightarrow> ring \<Rightarrow> 'v feature \<Rightarrow> error + bool" where
  "university_in contains polygon_coords university =
     (case get_geometry_center (geometry university) of
        Inl e \<Rightarrow> Inl e
      | Inr uni_center \<Rightarrow>
          (if truthy uni_center
           then point_in_polygon contains
                  (the (point_x (the uni_center)), the (point_y (the uni_center))) polygon_coords
           else Inr False))"

text \<open>
  The inner loop: \<open>count\<close> and \<open>region_universities\<close> are the state.
\<close>

fun check_universities ::
  "contains_prim \<Rightarrow> ring \<Rightarrow> 'v feature list \<Rightarrow> nat \<times> 'v feature list
     \<Rightarrow> error + nat \<times> 'v feature list" where
  "check_universities contains polygon_coords [] st = Inr st"
| "check_universities contains polygon_coords (university # rest) (cnt, region_universities) =
     (case university_in contains polygon_coords university of
        Inl e \<Rightarrow> Inl e
      | Inr True \<Rightarrow>
          check_universities contains polygon_coords rest
            (cnt + 1, region_universities @ [university])
      | Inr False \<Rightarrow>
          check_universities contains polygon_coords rest (cnt, region_universities))"

text \<open>
  The outer loop. \<open>region_counts\<close> is a Python dictionary: an association list in
  insertion order, where storing under a key that is present replaces the value in place.
\<close>

fun regions_loop ::
  "contains_prim \<Rightarrow> 'v feature list \<Rightarrow> 'v feature list \<Rightarrow> ('v \<times> 'v region_entry) list
     \<Rightarrow> error + ('v \<times> 'v region_entry) list" where
  "regions_loop contains [] unis region_counts = Inr region_counts"
| "regions_loop contains (reg # rest) unis region_counts =
     (case properties reg ''name'' of
        None \<Rightarrow> Inl KeyError
      | Some region_name \<Rightarrow>
          (case region_polygon_coords (geometry reg) of
             Raise e \<Rightarrow> Inl e
           | Continue \<Rightarrow> regions_loop contains rest unis region_counts
           | Coords polygon_coords \<Rightarrow>
               (case check_universities contains polygon_coords unis (0, []) of
                  Inl e \<Rightarrow> Inl e
                | Inr (cnt, region_universities) \<Rightarrow>
                    regions_loop contains rest unis
                      (AList.update region_name
                         \<lparr>count = cnt, universities = region_universities, region = reg\<rparr>
                         region_counts))))"

definition count_universities_in_regions ::
  "contains_prim \<Rightarrow> 'v feature list \<Rightarrow> 'v feature list
     \<Rightarrow> error + ('v \<times> 'v region_entry) list" where
  "count_universities_in_regions contains regions unis = regions_loop contains regions unis []"


section \<open>Task 2 (geospatial\_analysis.py): frames and geometry primitives\<close>

text \<open>
  A GeoDataFrame: its column names and its rows in order. A row carries its index label
  (what \<open>idxmin\<close> and \<open>.loc\<close> speak of; \<open>gpd.clip\<close> keeps the labels the rows had before),
  its geometry and the values of its attribute columns; a column without a value in a
  row (\<open>NaN\<close>, \<open>None\<close>) is \<open>None\<close> there. The geometry type \<open>'g\<close> and the operations
  \<open>buffer\<close>, \<open>intersects\<close> and \<open>distance\<close> are shapely's and are parameters.
\<close>

record ('g, 'v) row =
  label :: int
  geom :: 'g
  attrs :: "string \<rightharpoonup> 'v"

record ('g, 'v) frame =
  columns :: "string list"
  rows :: "('g, 'v) row list"

subsection \<open>Boundary by name\<close>

text \<open>
  Python strings are sequences of code points. \<open>str.contains(variant, case=False,
  na=False)\<close> searches the name for the variant without regard to letter case and is
  false for a missing name. The variant is read as a regular expression; for a variant
  without metacharacters, as all variants here are, the search is the test for a
  contiguous sublist. Letter case is folded for the Latin and the Cyrillic alphabet.
\<close>

type_synonym ustring = "nat list"

definition ascii :: "string \<Rightarrow> ustring" where
  "ascii s = map of_char s"

definition lower_cp :: "nat \<Rightarrow> nat" where
  "lower_cp c =
     (if 65 \<le> c \<and> c \<le> 90 then c + 32
      else if 1040 \<le> c \<and> c \<le> 1071 then c + 32
      else if 1024 \<le> c \<and> c \<le> 1039 then c + 80
      else c)"

definition str_contains :: "ustring \<Rightarrow> ustring option \<Rightarrow> bool" where
  "str_contains variant name =
     (case name of
        None \<Rightarrow> False
      | Some s \<Rightarrow> sublist (map lower_cp variant) (map lower_cp s))"

text \<open>
  \<open>irkutsk_variants\<close>: the four spellings of the script, in Cyrillic and Latin letters.
\<close>

definition irkutsk_variants :: "ustring list" where
  "irkutsk_variants =
     [[1048, 1088, 1082, 1091, 1090, 1089, 1082], ascii ''Irkutsk'',
      [1080, 1088, 1082, 1091, 1090, 1089, 1082], ascii ''IRKUTSK'']"

text \<open>
  The loop over the variants. Its result is \<open>irkutsk_boundary\<close> after the loop: \<open>None\<close>,
  or the rows selected by the mask of the first variant whose mask has a true entry.
\<close>

definition name_mask :: "ustring \<Rightarrow> ('g, ustring) frame \<Rightarrow> bool list" where
  "name_mask variant settlements =
     map (\<lambda>r. str_contains variant (attrs r ''name'')) (rows settlements)"

definition select_rows :: "('g, 'v) frame \<Rightarrow> bool list \<Rightarrow> ('g, 'v) frame" where
  "select_rows fr bmask = fr\<lparr>rows := map fst (filter snd (zip (rows fr) bmask))\<rparr>"

fun variants_loop :: "ustring list \<Rightarrow> ('g, ustring) frame \<Rightarrow> ('g, ustring) frame option" where
  "variants_loop [] settlements = None"
| "variants_loop (variant # rest) settlements =
     (if ''name'' \<in> set (columns settlements)
      then (let bmask = name_mask variant settlements
            in if True \<in> set bmask then Some (select_rows settlements bmask)
               else variants_loop rest settlements)
      else variants_loop rest settlements)"

text \<open>
  \<open>settlements.iloc[[0]]\<close>: the frame of the first row; IndexError on a frame without rows.
\<close>

definition iloc0 :: "('g, 'v) frame \<Rightarrow> error + ('g, 'v) frame" where
  "iloc0 fr = (case rows fr of [] \<Rightarrow> Inl IndexError | r # _ \<Rightarrow> Inr (fr\<lparr>rows := [r]\<rparr>))"

definition resolve_boundary ::
  "ustring list \<Rightarrow> ('g, ustring) frame \<Rightarrow> error + ('g, ustring) frame" where
  "resolve_boundary variants settlements =
     (case variants_loop variants settlements of
        None \<Rightarrow> iloc0 settlements
      | Some irkutsk_boundary \<Rightarrow>
          (if length (rows irkutsk_boundary) = 0 then iloc0 settlements
           else Inr irkutsk_boundary))"

subsection \<open>Road types in a radius\<close>

text \<open>
  \<open>Series.nunique()\<close>: the number of distinct values, missing values not counted.
\<close>

definition nunique :: "'v option list \<Rightarrow> nat" where
  "nunique vals = length (remdups (map the (filter (\<lambda>v. v \<noteq> None) vals)))"

text \<open>
  \<open>count_unique_roads_in_radius\<close>. The global \<open>road_type_column\<close> is a parameter; reading
  a column that the frame does not have raises KeyError.
\<close>

definition count_unique_roads_in_radius ::
  "('g \<Rightarrow> real \<Rightarrow> 'g) \<Rightarrow> ('g \<Rightarrow> 'g \<Rightarrow> bool) \<Rightarrow> string
     \<Rightarrow> ('g, 'v) row \<Rightarrow> ('g, 'v) frame \<Rightarrow> real \<Rightarrow> error + nat" where
  "count_unique_roads_in_radius buffer intersects road_type_column park roads radius =
     (let buf = buffer (geom park) radius;
          intersecting_roads = filter (\<lambda>r. intersects (geom r) buf) (rows roads)
      in if length intersecting_roads > 0
         then (if road_type_column \<in> set (columns roads)
               then Inr (nunique (map (\<lambda>r. attrs r road_type_column) intersecting_roads))
               else Inl KeyError)
         else Inr 0)"

subsection \<open>Nearest road\<close>

text \<open>
  \<open>Series.min()\<close> is \<open>nan\<close> for the empty series. \<open>Series.idxmin()\<close> is the label of the
  first entry that holds the minimum, and raises ValueError for the empty series.
\<close>

fun series_min :: "real list \<Rightarrow> npfloat" where
  "series_min [] = None"
| "series_min (d # ds) = Some (fold min ds d)"

fun idxmin_from :: "int \<times> real \<Rightarrow> (int \<times> real) list \<Rightarrow> int" where
  "idxmin_from best [] = fst best"
| "idxmin_from best (p # ps) = idxmin_from (if snd p < snd best then p else best) ps"

fun idxmin :: "(int \<times> real) list \<Rightarrow> error + int" where
  "idxmin [] = Inl ValueError"
| "idxmin (p # ps) = Inr (idxmin_from p ps)"

text \<open>
  The identifier returned: the index label, or what \<open>roads.loc[label, 'id']\<close> gives, the
  value of the one row with that label (possibly missing), or the series of the values
  of all rows with that label when several rows carry it.
\<close>

datatype 'v road_id = Index int | Scalar "'v option" | Series "'v option list"

definition loc :: "('g, 'v) frame \<Rightarrow> int \<Rightarrow> string \<Rightarrow> 'v road_id" where
  "loc fr l col =
     (case filter (\<lambda>r. label r = l) (rows fr) of
        [r] \<Rightarrow> Scalar (attrs r col)
      | rs \<Rightarrow> Series (map (\<lambda>r. attrs r col) rs))"

definition min_distance_to_road ::
  "('g \<Rightarrow> 'g \<Rightarrow> real) \<Rightarrow> ('g, 'v) row \<Rightarrow> ('g, 'v) frame \<Rightarrow> error + npfloat \<times> 'v road_id" where
  "min_distance_to_road distance park roads =
     (let distances = map (\<lambda>r. (label r, distance (geom r) (geom park))) (rows roads);
          min_dist = series_min (map snd distances)
      in case idxmin distances of
           Inl e \<Rightarrow> Inl e
         | Inr nearest_road_idx \<Rightarrow>
             (if ''id'' \<in> set (columns roads)
              then Inr (min_dist, loc roads nearest_road_idx ''id'')
              else Inr (min_dist, Index nearest_road_idx)))"


section \<open>Instances of the geometry primitives, for evaluation\<close>

text \<open>
  For task 1, containment by the crossing-number rule: a point is inside when a ray from
  it to the right crosses the closed ring an odd number of times. For a point off the
  boundary of a simple ring this is what \<open>Polygon(coords).contains(Point(point))\<close>
  answers; a ring of fewer than three positions, or a position of fewer than two numbers,
  is rejected.
\<close>

definition crosses :: "real \<times> real \<Rightarrow> position \<Rightarrow> position \<Rightarrow> bool" where
  "crosses pt a b =
     ((a ! 1 > snd pt) \<noteq> (b ! 1 > snd pt)
      \<and> fst pt < a ! 0 + (snd pt - a ! 1) * (b ! 0 - a ! 0) / (b ! 1 - a ! 1))"

fun edges_crossed :: "real \<times> real \<Rightarrow> ring \<Rightarrow> nat" where
  "edges_crossed pt (a # b # rest) =
     (if crosses pt a b then 1 else 0) + edges_crossed pt (b # rest)"
| "edges_crossed pt _ = 0"

definition crossing_contains :: contains_prim where
  "crossing_contains coords pt =
     (if length coords < 3 \<or> (\<exists>c\<in>set coords. length c < 2) then Inl ValueError
      else Inr (odd (edges_crossed pt (coords @ [hd coords]))))"

text \<open>
  For task 2, geometries on a line: \<open>(lo, hi)\<close> is the segment of the x axis from \<open>lo\<close> to
  \<open>hi\<close> (a point when they are equal, empty when \<open>hi < lo\<close>), with the buffer, the
  intersection test and the distance that plane geometry gives for such segments.
\<close>

type_synonym segment = "real \<times> real"

definition segment_buffer :: "segment \<Rightarrow> real \<Rightarrow> segment" where
  "segment_buffer g r = (fst g - r, snd g + r)"

definition segment_intersects :: "segment \<Rightarrow> segment \<Rightarrow> bool" where
  "segment_intersects a b =
     (fst a \<le> snd a \<and> fst b \<le> snd b \<and> fst a \<le> snd b \<and> fst b \<le> snd a)"

definition segment_distance :: "segment \<Rightarrow> segment \<Rightarrow> real" where
  "segment_distance a b = max 0 (max (fst a - snd b) (fst b - snd a))"

section \<open>Task 1: colour scale\<close>

text \<open>
  \<open>get_color\<close> computes with Python floats, IEEE 754 double precision numbers: every
  operation gives the exact result rounded to the nearest number of 53 significant bits,
  ties to the even significand. The doubles are modelled as the rationals they denote.
  The exponent is not bounded in the model: the numbers of this function come from
  counts of list elements and stay far inside the range of the doubles.

  \<open>exponent x\<close> is the \<open>e\<close> with \<open>2\<^sup>e \<le> x < 2\<^sup>e\<^sup>+\<^sup>1\<close> for a positive \<open>x\<close>.
\<close>

definition exponent :: "rat \<Rightarrow> int" where
  "exponent x =
     (if 1 \<le> x then int (floorlog 2 (nat \<lfloor>x\<rfloor>)) - 1
      else - int (floorlog 2 (nat (\<lceil>1 / x\<rceil> - 1))))"

definition round_half_even :: "rat \<Rightarrow> int" where
  "round_half_even y =
     (let f = \<lfloor>y\<rfloor>; d = y - of_int f
      in if d < 1 / 2 then f
         else if 1 / 2 < d then f + 1
         else if even f then f else f + 1)"

definition to_double :: "rat \<Rightarrow> rat" where
  "to_double x =
     (if x = 0 then 0
      else (let ulp = 2 powi (exponent \<bar>x\<bar> - 52)
            in of_int (round_half_even (x / ulp)) * ulp))"

text \<open>
  \<open>int(x)\<close> of a float: the fractional part is dropped, towards zero.
\<close>

definition int_of_float :: "rat \<Rightarrow> int" where
  "int_of_float x = (if 0 \<le> x then \<lfloor>x\<rfloor> else \<lceil>x\<rceil>)"

text \<open>
  The format \<open>02x\<close> of an integer: lower-case hexadecimal digits, filled with zeros to
  two characters, the sign of a negative number counting as one of them.
\<close>

definition hex_digit :: "nat \<Rightarrow> char" where
  "hex_digit d = ''0123456789abcdef'' ! d"

fun hex :: "nat \<Rightarrow> string" where
  "hex n = (if n < 16 then [hex_digit n] else hex (n div 16) @ [hex_digit (n mod 16)])"

definition format_02x :: "int \<Rightarrow> string" where
  "format_02x i =
     (if i < 0 then CHR ''-'' # hex (nat (- i))
      else if i < 16 then CHR ''0'' # hex (nat i)
      else hex (nat i))"

text \<open>
  \<open>get_color\<close>, with its local variables as functions of the arguments. The three counts
  are Python integers; their quotient is the correctly rounded double.
\<close>

definition normalized :: "int \<Rightarrow> int \<Rightarrow> int \<Rightarrow> rat" where
  "normalized cnt min_count max_count =
     to_double (of_int (cnt - min_count) / of_int (max_count - min_count))"

definition red :: "int \<Rightarrow> int \<Rightarrow> int \<Rightarrow> int" where
  "red cnt min_count max_count =
     int_of_float (to_double (230 - to_double (212 * normalized cnt min_count max_count)))"

definition green :: "int \<Rightarrow> int \<Rightarrow> int \<Rightarrow> int" where
  "green cnt min_count max_count =
     int_of_float (to_double (243 - to_double (233 * normalized cnt min_count max_count)))"

definition blue :: "int \<Rightarrow> int \<Rightarrow> int \<Rightarrow> int" where
  "blue cnt min_count max_count =
     int_of_float (to_double (255 - to_double (112 * normalized cnt min_count max_count)))"

definition get_color :: "int \<Rightarrow> int \<Rightarrow> int \<Rightarrow> string" where
  "get_color cnt min_count max_count =
     (if max_count = min_count then ''#E6F3FF''
      else ''#'' @ format_02x (red cnt min_count max_count)
             @ format_02x (green cnt min_count max_count)
             @ format_02x (blue cnt min_count max_count))"

text \<open>
  The channel value as the specification words it: the linear interpolation between the
  light and the dark endpoint at \<open>(count - min) / (max - min)\<close>, in exact arithmetic, with
  the fractional part dropped.
\<close>

definition interpolation :: "int \<Rightarrow> int \<Rightarrow> int \<Rightarrow> int \<Rightarrow> int \<Rightarrow> rat" where
  "interpolation light dark cnt min_count max_count =
     of_int light
       + of_int (dark - light) * (of_int (cnt - min_count) / of_int (max_count - min_count))"

definition interpolated_channel :: "int \<Rightarrow> int \<Rightarrow> int \<Rightarrow> int \<Rightarrow> int \<Rightarrow> int" where
  "interpolated_channel light dark cnt min_count max_count =
     int_of_float (interpolation light dark cnt min_count max_count)"

section \<open>Notions of the specification and example data\<close>

text \<open>
  The universities whose centre a ring contains: those for which the condition of the
  inner loop is true.
\<close>

definition matched :: "contains_prim \<Rightarrow> ring \<Rightarrow> 'v feature list \<Rightarrow> 'v feature list" where
  "matched contains polygon_coords unis =
     filter (\<lambda>u. university_in contains polygon_coords u = Inr True) unis"

text \<open>
  The category values present on the roads that intersect the buffer around a park.
\<close>

definition categories_in_radius ::
  "('g \<Rightarrow> real \<Rightarrow> 'g) \<Rightarrow> ('g \<Rightarrow> 'g \<Rightarrow> bool) \<Rightarrow> string
     \<Rightarrow> ('g, 'v) row \<Rightarrow> ('g, 'v) frame \<Rightarrow> real \<Rightarrow> 'v set" where
  "categories_in_radius buffer intersects road_type_column park roads radius =
     {v. \<exists>r\<in>set (rows roads).
           intersects (geom r) (buffer (geom park) radius) \<and> attrs r road_type_column = Some v}"

text \<open>
  Example data for task 1: two regions with the same square as polygon, under different
  names, and a university at the centre of the square.
\<close>

definition square :: ring where
  "square = [[0, 0], [2, 0], [2, 2], [0, 2], [0, 0]]"

definition region_A :: "string feature" where
  "region_A = \<lparr>properties = [''name'' \<mapsto> ''A''], geometry = Polygon [square]\<rparr>"

definition region_B :: "string feature" where
  "region_B = \<lparr>properties = [''name'' \<mapsto> ''B''], geometry = Polygon [square]\<rparr>"

definition campus :: "string feature" where
  "campus = \<lparr>properties = [''amenity'' \<mapsto> ''university''], geometry = Point [1, 1]\<rparr>"

text \<open>
  Example data for task 2, on the x axis: a park at the origin; a clipped roads frame
  whose two rows kept the labels 3 and 7 of the unclipped frame; a frame with one road
  whose \<open>highway\<close> value is missing; a frame without rows.
\<close>

definition park0 :: "(segment, string) row" where
  "park0 = \<lparr>label = 0, geom = (0, 0), attrs = Map.empty\<rparr>"

definition clipped_roads :: "(segment, string) frame" where
  "clipped_roads =
     \<lparr>columns = [''highway''],
      rows = [\<lparr>label = 3, geom = (5, 6), attrs = [''highway'' \<mapsto> ''primary'']\<rparr>,
              \<lparr>label = 7, geom = (2, 3), attrs = [''highway'' \<mapsto> ''secondary'']\<rparr>]\<rparr>"

definition untyped_roads :: "(segment, string) frame" where
  "untyped_roads =
     \<lparr>columns = [''highway''],
      rows = [\<lparr>label = 0, geom = (1, 2), attrs = Map.empty\<rparr>]\<rparr>"

definition no_roads :: "(segment, string) frame" where
  "no_roads = \<lparr>columns = [''highway''], rows = []\<rparr>"


definition two_settlements :: "(segment, ustring) frame" where
  "two_settlements =
     \<lparr>columns = [''name''],
      rows = [\<lparr>label = 0, geom = (0, 10), attrs = [''name'' \<mapsto> ascii ''Irkutsk City'']\<rparr>,
              \<lparr>label = 1, geom = (20, 30), attrs = [''name'' \<mapsto> ascii ''Other Town'']\<rparr>]\<rparr>"

section \<open>Geometry adapter: properties\<close>





text \<open>
  C3, as the specification states it, fails: for a LineString the function raises nothing
  and returns \<open>None\<close>.
\<close>

theorem unsupported_geometry_counterexample:
  "get_geometry_center (LineString [[0, 0], [1, 1]]) = Inr None
   \<and> \<not> isl (get_geometry_center (LineString [[0, 0], [1, 1]]))"
  by simp

text \<open>
  C3, amended. For every geometry whose type is none of Point, Polygon and MultiPolygon
  the function returns \<open>None\<close> and raises no error, and the aggregator's condition for a
  feature of such a geometry is false: the feature is skipped.
\<close>

theorem unsupported_geometry_returns_None:
  assumes "geometry_type g \<notin> {''Point'', ''Polygon'', ''MultiPolygon''}"
  shows "get_geometry_center g = Inr None
       \<and> (geometry u = g \<longrightarrow> university_in contains polygon_coords u = Inr False)"
  using assms by (cases g) (simp_all add: university_in_def)

theorem unsupported_geometry_returns_None_witness:
  "geometry_type (LineString [[0, 0], [1, 1]]) \<notin> {''Point'', ''Polygon'', ''MultiPolygon''}
   \<and> get_geometry_center (LineString [[0, 0], [1, 1]]) = Inr None
   \<and> university_in crossing_contains [[0, 0], [2, 0], [2, 2], [0, 2], [0, 0]]
        \<lparr>properties = Map.empty :: string \<rightharpoonup> string,
         geometry = LineString [[0, 0], [1, 1]]\<rparr> = Inr False"
  using unsupported_geometry_returns_None [of "LineString [[0, 0], [1, 1]]"
      "\<lparr>properties = Map.empty, geometry = LineString [[0, 0], [1, 1]]\<rparr>"
      crossing_contains "[[0, 0], [2, 0], [2, 2], [0, 2], [0, 0]]"]
  by simp

section \<open>Containment aggregator: properties\<close>

lemma check_universities_result:
  "check_universities c pc unis (cnt, acc) = Inr (cnt', acc')
   \<Longrightarrow> cnt' = cnt + length (matched c pc unis) \<and> acc' = acc @ matched c pc unis"
proof (induction unis arbitrary: cnt acc)
  case Nil
  then show ?case by (simp add: matched_def)
next
  case (Cons u unis)
  show ?case
  proof (cases "university_in c pc u")
    case (Inl e)
    with Cons.prems show ?thesis by simp
  next
    case (Inr b)
    show ?thesis
    proof (cases b)
      case True
      with Inr Cons.prems
      have "check_universities c pc unis (cnt + 1, acc @ [u]) = Inr (cnt', acc')" by simp
      from Cons.IH [OF this] Inr True show ?thesis by (simp add: matched_def)
    next
      case False
      with Inr Cons.prems
      have "check_universities c pc unis (cnt, acc) = Inr (cnt', acc')" by simp
      from Cons.IH [OF this] Inr False show ?thesis by (simp add: matched_def)
    qed
  qed
qed

text \<open>
  What the dictionary holds after the outer loop under a name: an entry that was there
  before, or the entry of a region of that name whose geometry is a Polygon or a
  MultiPolygon, with the universities that region's ring contains.
\<close>

lemma regions_loop_entry:
  "regions_loop c regs unis rc0 = Inr rc \<Longrightarrow> map_of rc n = Some e
   \<Longrightarrow> map_of rc0 n = Some e
     \<or> (\<exists>reg\<in>set regs. \<exists>pc. properties reg ''name'' = Some n
           \<and> region_polygon_coords (geometry reg) = Coords pc
           \<and> e = \<lparr>count = length (matched c pc unis), universities = matched c pc unis,
                  region = reg\<rparr>)"
proof (induction regs arbitrary: rc0)
  case Nil
  then show ?case by simp
next
  case (Cons reg regs)
  from Cons.prems(1) obtain region_name where nm: "properties reg ''name'' = Some region_name"
    by (cases "properties reg ''name''") auto
  show ?case
  proof (cases "region_polygon_coords (geometry reg)")
    case (Raise err)
    with Cons.prems(1) nm show ?thesis by simp
  next
    case Continue
    with Cons.prems(1) nm have "regions_loop c regs unis rc0 = Inr rc" by simp
    from Cons.IH [OF this Cons.prems(2)] show ?thesis by auto
  next
    case (Coords pc)
    from Cons.prems(1) nm Coords obtain cnt members
      where chk: "check_universities c pc unis (0, []) = Inr (cnt, members)"
      by (cases "check_universities c pc unis (0, [])") auto
    from check_universities_result [OF chk]
    have cm: "cnt = length (matched c pc unis)" "members = matched c pc unis" by simp_all
    let ?e = "\<lparr>count = cnt, universities = members, region = reg\<rparr>"
    from Cons.prems(1) nm Coords chk
    have "regions_loop c regs unis (AList.update region_name ?e rc0) = Inr rc" by simp
    from Cons.IH [OF this Cons.prems(2)]
    show ?thesis
    proof
      assume "map_of (AList.update region_name ?e rc0) n = Some e"
      then have "(if n = region_name then Some ?e else map_of rc0 n) = Some e"
        by (simp add: update_conv')
      then show ?thesis using nm Coords cm by (auto split: if_splits)
    next
      assume "\<exists>reg\<in>set regs. \<exists>pc. properties reg ''name'' = Some n
           \<and> region_polygon_coords (geometry reg) = Coords pc
           \<and> e = \<lparr>count = length (matched c pc unis), universities = matched c pc unis,
                  region = reg\<rparr>"
      then show ?thesis by auto
    qed
  qed
qed

lemma count_universities_entry:
  assumes "count_universities_in_regions c regs unis = Inr rc" and "map_of rc n = Some e"
  shows "\<exists>reg\<in>set regs. \<exists>pc. properties reg ''name'' = Some n
           \<and> region_polygon_coords (geometry reg) = Coords pc
           \<and> e = \<lparr>count = length (matched c pc unis), universities = matched c pc unis,
                  region = reg\<rparr>"
  using regions_loop_entry [of c regs unis "[]" rc n e] assms
  by (simp add: count_universities_in_regions_def)

lemma count_list_filter_le: "count_list (filter P xs) x \<le> count_list xs x"
  by (induction xs) auto

lemma example_regions_result:
  "count_universities_in_regions crossing_contains [region_A, region_B] [campus]
   = Inr [(''A'', \<lparr>count = 1, universities = [campus], region = region_A\<rparr>),
          (''B'', \<lparr>count = 1, universities = [campus], region = region_B\<rparr>)]"
  by (simp add: count_universities_in_regions_def region_A_def region_B_def campus_def
      square_def item_def university_in_def Point_of_position_def point_in_polygon_def
      crossing_contains_def crosses_def)




text \<open>
  C10. In every entry the count is at most the number of target features, the members
  are the targets in their input order (a subsequence of the input), and no target is
  listed more often than it occurs in the input.
\<close>

theorem region_entry_bounds:
  assumes "count_universities_in_regions contains regions unis = Inr region_counts"
    and "map_of region_counts name = Some entry"
  shows "count entry \<le> length unis
       \<and> subseq (universities entry) unis
       \<and> (\<forall>u. count_list (universities entry) u \<le> count_list unis u)"
proof -
  from count_universities_entry [OF assms] obtain pc
    where "universities entry = matched contains pc unis"
      and "count entry = length (matched contains pc unis)" by auto
  then show ?thesis by (simp add: matched_def count_list_filter_le)
qed

theorem region_entry_bounds_witness:
  "count_universities_in_regions crossing_contains [region_A, region_B] [campus]
     = Inr [(''A'', \<lparr>count = 1, universities = [campus], region = region_A\<rparr>),
            (''B'', \<lparr>count = 1, universities = [campus], region = region_B\<rparr>)]
   \<and> map_of [(''A'', \<lparr>count = 1, universities = [campus], region = region_A\<rparr>),
              (''B'', \<lparr>count = 1, universities = [campus], region = region_B\<rparr>)] ''A''
     = Some \<lparr>count = 1, universities = [campus], region = region_A\<rparr>
   \<and> (1::nat) \<le> length [campus]
   \<and> subseq [campus] [campus]
   \<and> (\<forall>u. count_list [campus] u \<le> count_list [campus] u)"
proof -
  let ?eA = "\<lparr>count = 1, universities = [campus], region = region_A\<rparr>"
  let ?rc = "[(''A'', ?eA), (''B'', \<lparr>count = 1, universities = [campus], region = region_B\<rparr>)]"
  have h2: "map_of ?rc ''A'' = Some ?eA" by simp
  from region_entry_bounds [OF example_regions_result h2]
  show ?thesis using example_regions_result h2 by simp
qed

section \<open>Proximity analyzer: properties\<close>

lemma nunique_card: "nunique vals = card {v. Some v \<in> set vals}"
proof -
  have "set (map the (filter (\<lambda>v. v \<noteq> None) vals)) = {v. Some v \<in> set vals}"
    by (auto simp: image_iff) force
  then show ?thesis by (simp add: nunique_def length_remdups_card_conv)
qed

lemma finite_categories: "finite (categories_in_radius b i col park roads radius)"
proof -
  have "categories_in_radius b i col park roads radius
        \<subseteq> the ` (\<lambda>r. attrs r col) ` set (rows roads)"
    by (auto simp: categories_in_radius_def image_iff) force
  then show ?thesis by (rule finite_subset) simp
qed

lemma count_unique_card:
  assumes "col \<in> set (columns roads)"
  shows "count_unique_roads_in_radius b i col park roads radius
         = Inr (card (categories_in_radius b i col park roads radius))"
proof (cases "filter (\<lambda>r. i (geom r) (b (geom park) radius)) (rows roads) = []")
  case True
  then have "categories_in_radius b i col park roads radius = {}"
    by (auto simp: categories_in_radius_def filter_empty_conv)
  with True show ?thesis by (simp add: count_unique_roads_in_radius_def)
next
  case False
  have "{v. Some v \<in> set (map (\<lambda>r. attrs r col)
            (filter (\<lambda>r. i (geom r) (b (geom park) radius)) (rows roads)))}
        = categories_in_radius b i col park roads radius"
    by (auto simp: categories_in_radius_def image_iff)
  with False assms show ?thesis
    by (simp add: count_unique_roads_in_radius_def nunique_card Let_def)
qed

lemma segment_buffer_grows:
  "a \<le> b \<Longrightarrow> segment_intersects g (segment_buffer p a)
   \<Longrightarrow> segment_intersects g (segment_buffer p b)"
  by (auto simp: segment_intersects_def segment_buffer_def)

text \<open>
  C5, as the specification states it, fails: a road within the radius whose category
  value is missing is not counted by \<open>nunique\<close>, so the result is 0 although a road
  intersects the buffer.
\<close>

theorem zero_iff_no_road_counterexample:
  "count_unique_roads_in_radius segment_buffer segment_intersects ''highway''
     park0 untyped_roads 100 = Inr 0
   \<and> list_ex (\<lambda>r. segment_intersects (geom r) (segment_buffer (geom park0) 100))
        (rows untyped_roads)"
  by (simp add: count_unique_roads_in_radius_def untyped_roads_def park0_def nunique_def
      segment_intersects_def segment_buffer_def)

text \<open>
  C5, amended. The result is the number of distinct category values present on exactly
  those roads whose geometry intersects the buffer of the given radius around the
  feature; it is 0 if and only if no road that intersects the buffer carries a category
  value (in particular when no road intersects it).
\<close>

theorem unique_road_types_counts_present_values:
  assumes "road_type_column \<in> set (columns roads)"
  shows "count_unique_roads_in_radius buffer intersects road_type_column park roads radius
           = Inr (card (categories_in_radius buffer intersects road_type_column park roads radius))
       \<and> (count_unique_roads_in_radius buffer intersects road_type_column park roads radius = Inr 0
          \<longleftrightarrow> (\<forall>r\<in>set (rows roads). intersects (geom r) (buffer (geom park) radius)
                  \<longrightarrow> attrs r road_type_column = None))"
proof -
  let ?C = "categories_in_radius buffer intersects road_type_column park roads radius"
  have "card ?C = 0 \<longleftrightarrow> ?C = {}" by (simp add: finite_categories)
  also have "\<dots> \<longleftrightarrow> (\<forall>r\<in>set (rows roads). intersects (geom r) (buffer (geom park) radius)
                  \<longrightarrow> attrs r road_type_column = None)"
    by (auto simp: categories_in_radius_def) (metis option.exhaust)
  finally show ?thesis using count_unique_card [OF assms] by simp
qed

theorem unique_road_types_counts_present_values_witness:
  "''highway'' \<in> set (columns clipped_roads)
   \<and> count_unique_roads_in_radius segment_buffer segment_intersects ''highway''
       park0 clipped_roads 100 = Inr 2
   \<and> card (categories_in_radius segment_buffer segment_intersects ''highway''
       park0 clipped_roads 100) = 2
   \<and> list_ex (\<lambda>r. segment_intersects (geom r) (segment_buffer (geom park0) 100)
                   \<and> attrs r ''highway'' \<noteq> None) (rows clipped_roads)"
proof -
  have h: "''highway'' \<in> set (columns clipped_roads)" by (simp add: clipped_roads_def)
  have v: "count_unique_roads_in_radius segment_buffer segment_intersects ''highway''
       park0 clipped_roads 100 = Inr 2"
    by (simp add: count_unique_roads_in_radius_def clipped_roads_def park0_def nunique_def
        segment_intersects_def segment_buffer_def)
  have e: "list_ex (\<lambda>r. segment_intersects (geom r) (segment_buffer (geom park0) 100)
                   \<and> attrs r ''highway'' \<noteq> None) (rows clipped_roads)"
    by (simp add: clipped_roads_def park0_def segment_intersects_def segment_buffer_def)
  from unique_road_types_counts_present_values [OF h, of segment_buffer segment_intersects
      park0 100] v
  have "card (categories_in_radius segment_buffer segment_intersects ''highway''
       park0 clipped_roads 100) = 2" by simp
  with h v e show ?thesis by simp
qed

text \<open>
  C6. With a roads collection without rows, the nearest-road computation raises (the
  ValueError of \<open>idxmin\<close> on an empty series; the error the specification calls
  NoRoadsAvailable) and the count of road types is 0, for every feature and radius.
\<close>

theorem empty_roads:
  assumes "rows roads = []"
  shows "min_distance_to_road distance park roads = Inl ValueError
       \<and> count_unique_roads_in_radius buffer intersects road_type_column park roads radius = Inr 0"
  using assms by (simp add: min_distance_to_road_def count_unique_roads_in_radius_def)

theorem empty_roads_witness:
  "rows no_roads = []
   \<and> min_distance_to_road segment_distance park0 no_roads = Inl ValueError
   \<and> count_unique_roads_in_radius segment_buffer segment_intersects ''highway''
       park0 no_roads 100 = Inr 0"
proof -
  have h: "rows no_roads = []" by (simp add: no_roads_def)
  from empty_roads [OF h, of segment_distance park0 segment_buffer segment_intersects
      "''highway''" 100] h
  show ?thesis by simp
qed

text \<open>
  C8. For a fixed feature and roads collection the count does not decrease when the
  radius grows, for every buffer and intersection primitive under which the buffer of a
  larger radius intersects whatever the buffer of a smaller radius intersects (as discs
  around the feature do).
\<close>

theorem unique_road_types_monotone:
  assumes "r1 \<le> r2"
    and "\<forall>a b g. a \<le> b \<longrightarrow> intersects g (buffer (geom park) a)
           \<longrightarrow> intersects g (buffer (geom park) b)"
    and "road_type_column \<in> set (columns roads)"
  shows "\<exists>n1 n2.
           count_unique_roads_in_radius buffer intersects road_type_column park roads r1 = Inr n1
           \<and> count_unique_roads_in_radius buffer intersects road_type_column park roads r2 = Inr n2
           \<and> n1 \<le> n2"
proof -
  let ?C = "categories_in_radius buffer intersects road_type_column park roads"
  have "?C r1 \<subseteq> ?C r2"
    using assms(1,2) by (auto simp: categories_in_radius_def)
  then have "card (?C r1) \<le> card (?C r2)"
    by (intro card_mono finite_categories)
  then show ?thesis using count_unique_card [OF assms(3)] by simp
qed

theorem unique_road_types_monotone_witness:
  "(2::real) \<le> 100
   \<and> ''highway'' \<in> set (columns clipped_roads)
   \<and> count_unique_roads_in_radius segment_buffer segment_intersects ''highway''
       park0 clipped_roads 2 = Inr 1
   \<and> count_unique_roads_in_radius segment_buffer segment_intersects ''highway''
       park0 clipped_roads 100 = Inr 2
   \<and> (\<exists>n1 n2.
        count_unique_roads_in_radius segment_buffer segment_intersects ''highway''
          park0 clipped_roads 2 = Inr n1
        \<and> count_unique_roads_in_radius segment_buffer segment_intersects ''highway''
          park0 clipped_roads 100 = Inr n2
        \<and> n1 \<le> n2)"
proof -
  have h1: "(2::real) \<le> 100" by simp
  have h3: "''highway'' \<in> set (columns clipped_roads)" by (simp add: clipped_roads_def)
  have v1: "count_unique_roads_in_radius segment_buffer segment_intersects ''highway''
       park0 clipped_roads 2 = Inr 1"
    by (simp add: count_unique_roads_in_radius_def clipped_roads_def park0_def nunique_def
        segment_intersects_def segment_buffer_def)
  have v2: "count_unique_roads_in_radius segment_buffer segment_intersects ''highway''
       park0 clipped_roads 100 = Inr 2"
    by (simp add: count_unique_roads_in_radius_def clipped_roads_def park0_def nunique_def
        segment_intersects_def segment_buffer_def)
  have h2: "\<forall>a b g. a \<le> b \<longrightarrow> segment_intersects g (segment_buffer (geom park0) a)
           \<longrightarrow> segment_intersects g (segment_buffer (geom park0) b)"
    using segment_buffer_grows by blast
  from unique_road_types_monotone [of 2 100 segment_intersects segment_buffer park0
      "''highway''" clipped_roads, OF h1 h2 h3] h1 h3 v1 v2
  show ?thesis by blast
qed

lemma idxmin_from_prefix:
  assumes "k < length pre" and "best = pre ! k"
    and "\<forall>j<length pre. snd best \<le> snd (pre ! j)"
    and "\<forall>j<k. snd best < snd (pre ! j)"
  shows "\<exists>i<length (pre @ ps). idxmin_from best ps = fst ((pre @ ps) ! i)
           \<and> (\<forall>j<length (pre @ ps). snd ((pre @ ps) ! i) \<le> snd ((pre @ ps) ! j))
           \<and> (\<forall>j<i. snd ((pre @ ps) ! i) < snd ((pre @ ps) ! j))"
  using assms
proof (induction ps arbitrary: pre best k)
  case Nil
  then show ?case by auto
next
  case (Cons p ps)
  let ?pre = "pre @ [p]"
  show ?case
  proof (cases "snd p < snd best")
    case True
    have a: "length pre < length ?pre" by simp
    have b: "p = ?pre ! length pre" by simp
    have d: "\<forall>j<length pre. snd p < snd (?pre ! j)"
    proof (intro allI impI)
      fix j assume j: "j < length pre"
      with Cons.prems(3) have "snd best \<le> snd (pre ! j)" by simp
      with True j show "snd p < snd (?pre ! j)" by (simp add: nth_append)
    qed
    have c: "\<forall>j<length ?pre. snd p \<le> snd (?pre ! j)"
    proof (intro allI impI)
      fix j assume "j < length ?pre"
      then consider "j < length pre" | "j = length pre" by fastforce
      then show "snd p \<le> snd (?pre ! j)"
      proof cases
        case 1
        with d show ?thesis by (simp add: less_imp_le)
      next
        case 2
        then show ?thesis by simp
      qed
    qed
    from Cons.IH [OF a b c d] True show ?thesis by simp
  next
    case False
    have a: "k < length ?pre" using Cons.prems(1) by simp
    have b: "best = ?pre ! k" using Cons.prems(1,2) by (simp add: nth_append)
    have c: "\<forall>j<length ?pre. snd best \<le> snd (?pre ! j)"
      using False Cons.prems(3) by (auto simp: nth_append less_Suc_eq)
    have d: "\<forall>j<k. snd best < snd (?pre ! j)"
      using Cons.prems(1,4) by (auto simp: nth_append)
    from Cons.IH [OF a b c d] False show ?thesis by simp
  qed
qed

lemma idxmin_first_minimum:
  assumes "xs \<noteq> []"
  shows "\<exists>i<length xs. idxmin xs = Inr (fst (xs ! i))
           \<and> (\<forall>j<length xs. snd (xs ! i) \<le> snd (xs ! j))
           \<and> (\<forall>j<i. snd (xs ! i) < snd (xs ! j))"
proof -
  from assms obtain p ps where xs: "xs = p # ps" by (cases xs) auto
  have "\<exists>i<length ([p] @ ps). idxmin_from p ps = fst (([p] @ ps) ! i)
           \<and> (\<forall>j<length ([p] @ ps). snd (([p] @ ps) ! i) \<le> snd (([p] @ ps) ! j))
           \<and> (\<forall>j<i. snd (([p] @ ps) ! i) < snd (([p] @ ps) ! j))"
    by (rule idxmin_from_prefix [where k = 0]) simp_all
  then show ?thesis by (simp add: xs)
qed

lemma series_min_least:
  assumes "i < length ds" and "\<forall>j<length ds. ds ! i \<le> ds ! j"
  shows "series_min ds = Some (ds ! i)"
proof -
  from assms(1) obtain d ds' where ds: "ds = d # ds'" by (cases ds) auto
  have "Min (set ds) = ds ! i"
  proof (rule Min_eqI)
    show "finite (set ds)" by simp
    show "ds ! i \<in> set ds" using assms(1) by simp
    fix y assume "y \<in> set ds"
    then obtain j where "j < length ds" "y = ds ! j" by (auto simp: in_set_conv_nth)
    with assms(2) show "ds ! i \<le> y" by simp
  qed
  with Min.set_eq_fold [of d ds'] show ?thesis by (simp add: ds)
qed

lemma loc_unique_label:
  assumes "distinct (map label (rows fr))" and "i < length (rows fr)"
  shows "loc fr (label (rows fr ! i)) col = Scalar (attrs (rows fr ! i) col)"
proof -
  have "filter (\<lambda>r. f r = f (xs ! i)) xs = [xs ! i]" if "distinct (map f xs)" "i < length xs"
    for f :: "('g, 'v) row \<Rightarrow> int" and xs
    using that
  proof (induction xs arbitrary: i)
    case Nil
    then show ?case by simp
  next
    case (Cons x xs)
    show ?case
    proof (cases i)
      case 0
      with Cons.prems have "\<forall>y\<in>set xs. f y \<noteq> f x" by (auto simp: image_iff)
      then have "filter (\<lambda>r. f r = f x) xs = []" by (simp add: filter_empty_conv)
      with 0 show ?thesis by simp
    next
      case (Suc n)
      with Cons.prems have n: "n < length xs" and "distinct (map f xs)" by simp_all
      from Cons.IH [OF this(2) n] have "filter (\<lambda>r. f r = f (xs ! n)) xs = [xs ! n]" .
      moreover from Cons.prems n have "f x \<noteq> f (xs ! n)" by (auto simp: image_iff)
      ultimately show ?thesis using Suc by simp
    qed
  qed
  from this [OF assms] show ?thesis by (simp add: loc_def)
qed

text \<open>
  C4, as the specification states it, fails in its last part: without an \<open>id\<close> column
  the identifier returned is the index label of the nearest road, here 7, the label the
  row kept from the unclipped frame, and not its position in the clipped frame, 1.
\<close>

theorem positional_index_counterexample:
  "min_distance_to_road segment_distance park0 clipped_roads = Inr (Some 2, Index 7)
   \<and> segment_distance (geom (rows clipped_roads ! 1)) (geom park0) = 2
   \<and> label (rows clipped_roads ! 1) = 7
   \<and> min_distance_to_road segment_distance park0 clipped_roads \<noteq> Inr (Some 2, Index 1)"
  by (simp add: min_distance_to_road_def clipped_roads_def park0_def segment_distance_def)

text \<open>
  C4, amended. For every feature and every roads collection with at least one row and
  distinct index labels, the result is the minimum over all roads of the distance from
  the feature's geometry to the road's geometry, with the identifier of the first road
  in row order that attains it: the value of the road's \<open>id\<close> attribute when the
  collection has an \<open>id\<close> column, and otherwise the road's index label.
\<close>

theorem nearest_road:
  assumes "rows roads \<noteq> []" and "distinct (map label (rows roads))"
  shows "\<exists>i<length (rows roads).
           min_distance_to_road distance park roads
             = Inr (Some (distance (geom (rows roads ! i)) (geom park)),
                    if ''id'' \<in> set (columns roads) then Scalar (attrs (rows roads ! i) ''id'')
                    else Index (label (rows roads ! i)))
           \<and> (\<forall>j<length (rows roads).
                 distance (geom (rows roads ! i)) (geom park)
                   \<le> distance (geom (rows roads ! j)) (geom park))
           \<and> (\<forall>j<i. distance (geom (rows roads ! i)) (geom park)
                         < distance (geom (rows roads ! j)) (geom park))"
proof -
  let ?ds = "map (\<lambda>r. (label r, distance (geom r) (geom park))) (rows roads)"
  from assms(1) have "?ds \<noteq> []" by simp
  from idxmin_first_minimum [OF this] obtain i where i: "i < length (rows roads)"
    and idx: "idxmin ?ds = Inr (label (rows roads ! i))"
    and least: "\<forall>j<length (rows roads).
                 distance (geom (rows roads ! i)) (geom park)
                   \<le> distance (geom (rows roads ! j)) (geom park)"
    and first: "\<forall>j<i. distance (geom (rows roads ! i)) (geom park)
                         < distance (geom (rows roads ! j)) (geom park)"
    by auto
  have "series_min (map snd ?ds) = Some (map snd ?ds ! i)"
    using i least by (intro series_min_least) simp_all
  then have m: "series_min (map snd ?ds) = Some (distance (geom (rows roads ! i)) (geom park))"
    using i by simp
  have "min_distance_to_road distance park roads
             = Inr (Some (distance (geom (rows roads ! i)) (geom park)),
                    if ''id'' \<in> set (columns roads) then Scalar (attrs (rows roads ! i) ''id'')
                    else Index (label (rows roads ! i)))"
    using idx m loc_unique_label [OF assms(2) i, of "''id''"]
    by (simp add: min_distance_to_road_def Let_def)
  with i least first show ?thesis by blast
qed

theorem nearest_road_witness:
  "rows clipped_roads \<noteq> []
   \<and> distinct (map label (rows clipped_roads))
   \<and> (\<exists>i<length (rows clipped_roads).
         min_distance_to_road segment_distance park0 clipped_roads
           = Inr (Some (segment_distance (geom (rows clipped_roads ! i)) (geom park0)),
                  if ''id'' \<in> set (columns clipped_roads)
                  then Scalar (attrs (rows clipped_roads ! i) ''id'')
                  else Index (label (rows clipped_roads ! i)))
         \<and> (\<forall>j<length (rows clipped_roads).
               segment_distance (geom (rows clipped_roads ! i)) (geom park0)
                 \<le> segment_distance (geom (rows clipped_roads ! j)) (geom park0))
         \<and> (\<forall>j<i. segment_distance (geom (rows clipped_roads ! i)) (geom park0)
                       < segment_distance (geom (rows clipped_roads ! j)) (geom park0)))"
proof -
  have h1: "rows clipped_roads \<noteq> []" by (simp add: clipped_roads_def)
  have h2: "distinct (map label (rows clipped_roads))" by (simp add: clipped_roads_def)
  from nearest_road [OF h1 h2, of segment_distance park0] h1 h2
  show ?thesis by blast
qed

section \<open>Boundary by name: properties\<close>




lemma variants_loop_no_column:
  "''name'' \<notin> set (columns s) \<Longrightarrow> variants_loop vs s = None"
  by (induction vs) simp_all





lemma script_variants_scenario:
  "resolve_boundary irkutsk_variants two_settlements
   = Inr (two_settlements\<lparr>rows := [rows two_settlements ! 0]\<rparr>)"
  by (simp add: resolve_boundary_def irkutsk_variants_def two_settlements_def name_mask_def
      str_contains_def ascii_def lower_cp_def select_rows_def sublist_Cons_right Let_def)



section \<open>Colour scale: properties\<close>

text \<open>
  Rounding to a double moves a number by at most half a unit in the last place, hence
  by at most the fraction \<open>2\<^sup>-\<^sup>5\<^sup>3\<close> of its magnitude.
\<close>

lemma round_half_even_error: "\<bar>of_int (round_half_even y) - y\<bar> \<le> 1 / 2"
proof -
  have "of_int \<lfloor>y\<rfloor> \<le> y" "y < of_int \<lfloor>y\<rfloor> + 1" by linarith+
  then show ?thesis
    by (auto simp: round_half_even_def Let_def abs_le_iff)
qed

lemma exponent_le:
  assumes "0 < x"
  shows "2 powi (exponent x) \<le> x"
proof (cases "1 \<le> x")
  case True
  let ?m = "nat \<lfloor>x\<rfloor>"
  from True have m: "0 < ?m" by simp
  from floorlog_bounds [where b = 2 and x = ?m] m have "2 ^ (floorlog 2 ?m - 1) \<le> ?m" by simp
  then have "(2::rat) ^ (floorlog 2 ?m - 1) \<le> of_nat ?m"
    by (metis of_nat_le_iff of_nat_numeral of_nat_power)
  also have "\<dots> \<le> x" using True by (simp add: of_nat_nat) 
  finally have le: "(2::rat) ^ (floorlog 2 ?m - 1) \<le> x" .
  from m have "0 < floorlog 2 ?m" by (simp add: floorlog_def)
  then have "int (floorlog 2 ?m) - 1 = int (floorlog 2 ?m - 1)" by simp
  then have "exponent x = int (floorlog 2 ?m - 1)" using True unfolding exponent_def by presburger
  then have "2 powi exponent x = (2::rat) ^ (floorlog 2 ?m - 1)" by (simp only: power_int_of_nat)
  then show ?thesis using le by simp
next
  case False
  let ?n = "\<lceil>1 / x\<rceil>"
  let ?m = "nat (?n - 1)"
  let ?k = "floorlog 2 ?m"
  from False assms have "1 < 1 / x" by simp
  then have n: "2 \<le> ?n" by linarith
  then have m: "0 < ?m" by simp
  from floorlog_bounds [where b = 2 and x = ?m] m have "?m < 2 ^ ?k" by simp
  then have "Suc ?m \<le> 2 ^ ?k" by (rule Suc_leI)
  then have "(of_nat (Suc ?m) :: rat) \<le> of_nat (2 ^ ?k)" by (simp only: of_nat_le_iff)
  moreover have "(of_nat (Suc ?m) :: rat) = of_int ?n"
  proof -
    have "int (Suc ?m) = ?n" using n by linarith
    then show ?thesis by (metis of_int_of_nat_eq)
  qed
  ultimately have "of_int ?n \<le> (2::rat) ^ ?k" by simp
  moreover have "1 / x \<le> of_int ?n" by linarith
  ultimately have "1 / x \<le> (2::rat) ^ ?k" by linarith
  then have "1 \<le> 2 ^ ?k * x" using assms by (simp add: field_simps)
  then have le: "inverse (2 ^ ?k) \<le> x" by (simp add: field_simps)
  have "exponent x = - int ?k" using False unfolding exponent_def by presburger
  then have "2 powi exponent x = inverse ((2::rat) ^ ?k)"
    by (simp only: power_int_minus power_int_of_nat)
  with le show ?thesis by simp
qed

lemma to_double_error: "\<bar>to_double x - x\<bar> \<le> \<bar>x\<bar> / 2 ^ 53"
proof (cases "x = 0")
  case True
  then show ?thesis by (simp add: to_double_def)
next
  case False
  define e where "e = exponent \<bar>x\<bar>"
  define ulp :: rat where "ulp = 2 powi (e - 52)"
  have ulp_pos: "0 < ulp" by (simp add: ulp_def)
  have td: "to_double x = of_int (round_half_even (x / ulp)) * ulp"
    using False by (simp add: to_double_def ulp_def e_def Let_def)
  have "to_double x - x = (of_int (round_half_even (x / ulp)) - x / ulp) * ulp"
    using ulp_pos by (simp add: td field_simps)
  then have "\<bar>to_double x - x\<bar> = \<bar>of_int (round_half_even (x / ulp)) - x / ulp\<bar> * ulp"
    using ulp_pos by (simp add: abs_mult)
  also have "\<dots> \<le> (1 / 2) * ulp"
    using round_half_even_error ulp_pos by (intro mult_right_mono) simp_all
  also have "(1 / 2) * ulp = 2 powi e / 2 ^ 53"
  proof -
    have "(2::rat) powi (e - 52) = 2 powi e / 2 ^ 52"
      by (simp add: power_int_diff)
    then show ?thesis by (simp add: ulp_def)
  qed
  also have "\<dots> \<le> \<bar>x\<bar> / 2 ^ 53"
    using exponent_le [of "\<bar>x\<bar>"] False by (simp add: e_def divide_right_mono)
  finally show ?thesis .
qed

text \<open>
  The three roundings of a channel computation move its value by less than \<open>2\<^sup>-\<^sup>4\<^sup>2\<close>, when
  the parameter is between 0 and 1 and the constants are those of a colour channel.
\<close>

lemma channel_error:
  fixes n L D :: rat
  assumes "0 \<le> n" "n \<le> 1" "0 \<le> D" "D \<le> 233" "0 \<le> L" "L \<le> 255"
  shows "\<bar>to_double (L - to_double (D * to_double n)) - (L - D * n)\<bar> < 1 / 2 ^ 42"
proof -
  define n' where "n' = to_double n"
  define p' where "p' = to_double (D * n')"
  define s' where "s' = to_double (L - p')"
  have e1: "\<bar>n' - n\<bar> \<le> 1 / 2 ^ 53"
  proof -
    have "\<bar>n' - n\<bar> \<le> \<bar>n\<bar> / 2 ^ 53" unfolding n'_def by (rule to_double_error)
    also have "\<dots> \<le> 1 / 2 ^ 53" using assms(1,2) by (simp add: divide_right_mono)
    finally show ?thesis .
  qed
  have tiny: "(1::rat) / 2 ^ 53 \<le> 1" by simp
  have n'b: "\<bar>n'\<bar> \<le> 2" using e1 tiny assms(1,2) by linarith
  have pb: "\<bar>D * n'\<bar> \<le> 466"
  proof -
    have "\<bar>D * n'\<bar> = D * \<bar>n'\<bar>" using assms(3) by (simp add: abs_mult)
    also have "\<dots> \<le> 233 * 2" using assms(3,4) n'b by (intro mult_mono) simp_all
    finally show ?thesis by simp
  qed
  have e2: "\<bar>p' - D * n'\<bar> \<le> 466 / 2 ^ 53"
  proof -
    have "\<bar>p' - D * n'\<bar> \<le> \<bar>D * n'\<bar> / 2 ^ 53" unfolding p'_def by (rule to_double_error)
    also have "\<dots> \<le> 466 / 2 ^ 53" using pb by (simp add: divide_right_mono)
    finally show ?thesis .
  qed
  have tiny2: "(466::rat) / 2 ^ 53 \<le> 1" by simp
  have p'b: "\<bar>p'\<bar> \<le> 467" using e2 pb tiny2 by linarith
  have sb: "\<bar>L - p'\<bar> \<le> 722" using p'b assms(5,6) by linarith
  have e3: "\<bar>s' - (L - p')\<bar> \<le> 722 / 2 ^ 53"
  proof -
    have "\<bar>s' - (L - p')\<bar> \<le> \<bar>L - p'\<bar> / 2 ^ 53" unfolding s'_def by (rule to_double_error)
    also have "\<dots> \<le> 722 / 2 ^ 53" using sb by (simp add: divide_right_mono)
    finally show ?thesis .
  qed
  have e1': "\<bar>D * n' - D * n\<bar> \<le> 233 / 2 ^ 53"
  proof -
    have "\<bar>D * n' - D * n\<bar> = D * \<bar>n' - n\<bar>"
      using assms(3) by (simp add: abs_mult right_diff_distrib [symmetric])
    also have "\<dots> \<le> 233 * (1 / 2 ^ 53)" using assms(3,4) e1 by (intro mult_mono) simp_all
    finally show ?thesis by simp
  qed
  have "s' - (L - D * n) = (s' - (L - p')) - (p' - D * n') - (D * n' - D * n)" by simp
  then have "\<bar>s' - (L - D * n)\<bar> \<le> \<bar>s' - (L - p')\<bar> + \<bar>p' - D * n'\<bar> + \<bar>D * n' - D * n\<bar>"
    by linarith
  also have "\<dots> \<le> 722 / 2 ^ 53 + 466 / 2 ^ 53 + 233 / 2 ^ 53" using e1' e2 e3 by linarith
  also have "\<dots> < 1 / 2 ^ 42" by simp
  finally show ?thesis by (simp add: s'_def p'_def n'_def)
qed

lemma floor_near_quotient:
  fixes s :: rat and a d :: int
  assumes "0 < d" and "d < 2 ^ 42" and "\<bar>s - of_int a / of_int d\<bar> < 1 / 2 ^ 42"
  shows "(\<not> d dvd a \<longrightarrow> \<lfloor>s\<rfloor> = a div d) \<and> (\<lfloor>s\<rfloor> = a div d \<or> \<lfloor>s\<rfloor> = a div d - 1)"
proof -
  define q where "q = a div d"
  define r where "r = a mod d"
  have a: "a = q * d + r" by (simp add: q_def r_def)
  have r: "0 \<le> r" "r < d" using assms(1) by (simp_all add: r_def)
  have dq: "(of_int d :: rat) > 0" using assms(1) by simp
  have E: "(of_int a :: rat) / of_int d = of_int q + of_int r / of_int d"
    using dq by (simp add: a field_simps)
  have small: "(1::rat) / 2 ^ 42 < 1 / of_int d"
  proof -
    have "(of_int d :: rat) < of_int (2 ^ 42)" using assms(2) by (simp only: of_int_less_iff)
    then have "(of_int d :: rat) < 2 ^ 42" by simp
    with dq show ?thesis by (simp add: frac_less2)
  qed
  have rd0: "0 \<le> (of_int r :: rat) / of_int d" using r(1) dq by simp
  have rd1: "(of_int r :: rat) / of_int d + 1 / of_int d \<le> 1"
  proof -
    have "r + 1 \<le> d" using r(2) by simp
    then have "(of_int (r + 1) :: rat) \<le> of_int d" by (simp only: of_int_le_iff)
    then have "(of_int r + 1 :: rat) / of_int d \<le> 1" using dq by simp
    then show ?thesis by (simp add: add_divide_distrib)
  qed
  from assms(3) have lo: "of_int a / of_int d - 1 / 2 ^ 42 < s"
    and hi: "s < of_int a / of_int d + 1 / 2 ^ 42" by linarith+
  have upper: "s < of_int q + 1" using hi E small rd1 by linarith
  have lower: "of_int q - 1 < s"
  proof -
    have "(1::rat) / 2 ^ 42 < 1" by simp
    with lo E rd0 show ?thesis by linarith
  qed
  have part2: "\<lfloor>s\<rfloor> = q \<or> \<lfloor>s\<rfloor> = q - 1"
  proof (cases "of_int q \<le> s")
    case True
    with upper have "\<lfloor>s\<rfloor> = q" by (intro floor_unique) simp_all
    then show ?thesis by simp
  next
    case False
    with lower have "\<lfloor>s\<rfloor> = q - 1" by (intro floor_unique) simp_all
    then show ?thesis by simp
  qed
  have part1: "\<lfloor>s\<rfloor> = q" if "\<not> d dvd a"
  proof -
    from that have "r \<noteq> 0" by (simp add: r_def dvd_eq_mod_eq_0)
    with r(1) have "1 \<le> r" by simp
    then have "(1::rat) \<le> of_int r" by simp
    then have "(1::rat) / of_int d \<le> of_int r / of_int d" using dq by (simp add: divide_right_mono)
    with small lo E have "of_int q < s" by linarith
    with upper show ?thesis by (intro floor_unique) simp_all
  qed
  from part1 part2 show ?thesis by (simp add: q_def)
qed

lemma channel_vs_interpolation:
  fixes L D cnt mn mx :: int
  assumes "mn < mx" "mn \<le> cnt" "cnt \<le> mx" "mx - mn < 2 ^ 42"
    and "0 \<le> D" "D \<le> 233" "D < L" "L \<le> 255"
  defines "c \<equiv> int_of_float (to_double (of_int L - to_double (of_int D * normalized cnt mn mx)))"
  shows "(\<not> (mx - mn) dvd D * (cnt - mn) \<longrightarrow> c = interpolated_channel L (L - D) cnt mn mx)
       \<and> (c = interpolated_channel L (L - D) cnt mn mx
          \<or> c = interpolated_channel L (L - D) cnt mn mx - 1)"
proof -
  define k where "k = cnt - mn"
  define d where "d = mx - mn"
  define n :: rat where "n = of_int k / of_int d"
  define s' where "s' = to_double (of_int L - to_double (of_int D * to_double n))"
  define a where "a = L * d - D * k"
  have d: "0 < d" "d < 2 ^ 42" using assms(1,4) by (simp_all add: d_def)
  have k: "0 \<le> k" "k \<le> d" using assms(2,3) by (simp_all add: k_def d_def)
  have dq: "(0::rat) < of_int d" using d(1) by simp
  have n0: "0 \<le> n" using k(1) dq by (simp add: n_def)
  have n1: "n \<le> 1"
  proof -
    have "(of_int k :: rat) \<le> of_int d" using k(2) by (simp only: of_int_le_iff)
    then show ?thesis using dq by (simp add: n_def)
  qed
  have DL: "(0::rat) \<le> of_int D" "(of_int D :: rat) \<le> 233" "(0::rat) \<le> of_int L"
    "(of_int L :: rat) \<le> 255" "(of_int D :: rat) + 1 \<le> of_int L"
  proof -
    show "(0::rat) \<le> of_int D" using assms(5) by simp
    have "(of_int D :: rat) \<le> of_int 233" using assms(6) by (simp only: of_int_le_iff)
    then show "(of_int D :: rat) \<le> 233" by simp
    show "(0::rat) \<le> of_int L" using assms(5,7) by simp
    have "(of_int L :: rat) \<le> of_int 255" using assms(8) by (simp only: of_int_le_iff)
    then show "(of_int L :: rat) \<le> 255" by simp
    have "D + 1 \<le> L" using assms(7) by simp
    then have "(of_int (D + 1) :: rat) \<le> of_int L" by (simp only: of_int_le_iff)
    then show "(of_int D :: rat) + 1 \<le> of_int L" by simp
  qed
  define E :: rat where "E = of_int L - of_int D * n"
  have err: "\<bar>s' - E\<bar> < 1 / 2 ^ 42"
    unfolding s'_def E_def using n0 n1 DL(1-4) by (rule channel_error)
  have Ea: "E = of_int a / of_int d"
    using dq by (simp add: E_def a_def n_def field_simps)
  have Dn: "of_int D * n \<le> of_int D"
    using DL(1) n1 by (simp add: mult_left_le)
  have E1: "1 \<le> E" using Dn DL(5) by (simp add: E_def)
  have "(1::rat) / 2 ^ 42 < 1" by simp
  with err E1 have s'pos: "0 \<le> s'" by linarith
  have c: "c = \<lfloor>s'\<rfloor>"
    using s'pos by (simp add: c_def int_of_float_def s'_def normalized_def n_def k_def d_def)
  have "interpolation L (L - D) cnt mn mx = E"
    by (simp add: interpolation_def E_def n_def k_def d_def)
  then have ic: "interpolated_channel L (L - D) cnt mn mx = a div d"
    using E1 by (simp add: interpolated_channel_def int_of_float_def Ea floor_divide_of_int_eq)
  have dv: "d dvd a \<longleftrightarrow> d dvd D * k"
    unfolding a_def by (metis dvd_diff_right_iff dvd_triv_right dvd_diff_commute)
  from floor_near_quotient [OF d, of s' a] err Ea
  have "(\<not> d dvd a \<longrightarrow> \<lfloor>s'\<rfloor> = a div d) \<and> (\<lfloor>s'\<rfloor> = a div d \<or> \<lfloor>s'\<rfloor> = a div d - 1)"
    by simp
  then show ?thesis using c ic dv by (simp add: k_def d_def)
qed

text \<open>
  C9, as the specification states it, fails: for count 107 between 0 and 212 the exact
  interpolation of the red channel is \<open>230 - 107 = 123\<close>, while the doubles give
  \<open>122.99999999999999\<close> and the channel 122.
\<close>

theorem exact_interpolation_counterexample:
  "red 107 0 212 = 122
   \<and> interpolated_channel 230 18 107 0 212 = 123
   \<and> get_color 107 0 212 = ''#7a7dc6''"
  by code_simp

text \<open>
  C9, amended. When min and max are equal the colour is the constant \<open>#E6F3FF\<close> for
  every count. When min is below max and the count lies between them (the range below
  \<open>2\<^sup>4\<^sup>2\<close>), each channel is the interpolation between the light and the dark endpoint
  evaluated in double precision and truncated: it equals the truncated exact
  interpolation whenever the exact value is not an integer, and is the exact value or
  one less when the exact value is an integer.
\<close>

theorem get_color_channels:
  "(max_count = min_count \<longrightarrow> get_color cnt min_count max_count = ''#E6F3FF'')
   \<and> (min_count < max_count \<longrightarrow> min_count \<le> cnt \<longrightarrow> cnt \<le> max_count
        \<longrightarrow> max_count - min_count < 2 ^ 42
        \<longrightarrow> get_color cnt min_count max_count
              = ''#'' @ format_02x (red cnt min_count max_count)
                  @ format_02x (green cnt min_count max_count)
                  @ format_02x (blue cnt min_count max_count)
            \<and> (\<not> (max_count - min_count) dvd 212 * (cnt - min_count)
                 \<longrightarrow> red cnt min_count max_count
                       = interpolated_channel 230 18 cnt min_count max_count)
            \<and> (red cnt min_count max_count = interpolated_channel 230 18 cnt min_count max_count
               \<or> red cnt min_count max_count
                  = interpolated_channel 230 18 cnt min_count max_count - 1)
            \<and> (\<not> (max_count - min_count) dvd 233 * (cnt - min_count)
                 \<longrightarrow> green cnt min_count max_count
                       = interpolated_channel 243 10 cnt min_count max_count)
            \<and> (green cnt min_count max_count
                  = interpolated_channel 243 10 cnt min_count max_count
               \<or> green cnt min_count max_count
                  = interpolated_channel 243 10 cnt min_count max_count - 1)
            \<and> (\<not> (max_count - min_count) dvd 112 * (cnt - min_count)
                 \<longrightarrow> blue cnt min_count max_count
                       = interpolated_channel 255 143 cnt min_count max_count)
            \<and> (blue cnt min_count max_count
                  = interpolated_channel 255 143 cnt min_count max_count
               \<or> blue cnt min_count max_count
                  = interpolated_channel 255 143 cnt min_count max_count - 1))"
proof (intro conjI impI)
  assume "max_count = min_count"
  then show "get_color cnt min_count max_count = ''#E6F3FF''" by (simp add: get_color_def)
next
  assume "min_count < max_count"
  then show "get_color cnt min_count max_count
              = ''#'' @ format_02x (red cnt min_count max_count)
                  @ format_02x (green cnt min_count max_count)
                  @ format_02x (blue cnt min_count max_count)"
    by (simp add: get_color_def)
next
  assume h: "min_count < max_count" "min_count \<le> cnt" "cnt \<le> max_count"
    "max_count - min_count < 2 ^ 42"
  have r: "red cnt min_count max_count
      = int_of_float (to_double (of_int 230
          - to_double (of_int 212 * normalized cnt min_count max_count)))"
    by (simp add: red_def)
  from channel_vs_interpolation [OF h, of 212 230]
  show "\<not> (max_count - min_count) dvd 212 * (cnt - min_count)
          \<Longrightarrow> red cnt min_count max_count
              = interpolated_channel 230 18 cnt min_count max_count"
    and "red cnt min_count max_count = interpolated_channel 230 18 cnt min_count max_count
         \<or> red cnt min_count max_count
            = interpolated_channel 230 18 cnt min_count max_count - 1"
    unfolding r by simp_all
  have g: "green cnt min_count max_count
      = int_of_float (to_double (of_int 243
          - to_double (of_int 233 * normalized cnt min_count max_count)))"
    by (simp add: green_def)
  from channel_vs_interpolation [OF h, of 233 243]
  show "\<not> (max_count - min_count) dvd 233 * (cnt - min_count)
          \<Longrightarrow> green cnt min_count max_count
              = interpolated_channel 243 10 cnt min_count max_count"
    and "green cnt min_count max_count = interpolated_channel 243 10 cnt min_count max_count
         \<or> green cnt min_count max_count
            = interpolated_channel 243 10 cnt min_count max_count - 1"
    unfolding g by simp_all
  have b: "blue cnt min_count max_count
      = int_of_float (to_double (of_int 255
          - to_double (of_int 112 * normalized cnt min_count max_count)))"
    by (simp add: blue_def)
  from channel_vs_interpolation [OF h, of 112 255]
  show "\<not> (max_count - min_count) dvd 112 * (cnt - min_count)
          \<Longrightarrow> blue cnt min_count max_count
              = interpolated_channel 255 143 cnt min_count max_count"
    and "blue cnt min_count max_count = interpolated_channel 255 143 cnt min_count max_count
         \<or> blue cnt min_count max_count
            = interpolated_channel 255 143 cnt min_count max_count - 1"
    unfolding b by simp_all
qed

theorem get_color_channels_witness:
  "get_color 5 4 4 = ''#E6F3FF''
   \<and> (0::int) < 3 \<and> (0::int) \<le> 1 \<and> (1::int) \<le> 3 \<and> (3::int) - 0 < 2 ^ 42
   \<and> \<not> ((3::int) - 0) dvd 212 * (1 - 0)
   \<and> \<not> ((3::int) - 0) dvd 233 * (1 - 0)
   \<and> \<not> ((3::int) - 0) dvd 112 * (1 - 0)
   \<and> get_color 1 0 3 = ''#'' @ format_02x (red 1 0 3) @ format_02x (green 1 0 3)
                          @ format_02x (blue 1 0 3)
   \<and> red 1 0 3 = interpolated_channel 230 18 1 0 3
   \<and> green 1 0 3 = interpolated_channel 243 10 1 0 3
   \<and> blue 1 0 3 = interpolated_channel 255 143 1 0 3"
proof -
  have a: "get_color 5 4 4 = ''#E6F3FF''"
    using get_color_channels [of 4 4 5] by simp
  have h: "(0::int) < 3" "(0::int) \<le> 1" "(1::int) \<le> 3" "(3::int) - 0 < 2 ^ 42"
    "\<not> ((3::int) - 0) dvd 212 * (1 - 0)" "\<not> ((3::int) - 0) dvd 233 * (1 - 0)"
    "\<not> ((3::int) - 0) dvd 112 * (1 - 0)"
    by simp_all
  from get_color_channels [of 3 0 1] h
  have "get_color 1 0 3 = ''#'' @ format_02x (red 1 0 3) @ format_02x (green 1 0 3)
                          @ format_02x (blue 1 0 3)
   \<and> red 1 0 3 = interpolated_channel 230 18 1 0 3
   \<and> green 1 0 3 = interpolated_channel 243 10 1 0 3
   \<and> blue 1 0 3 = interpolated_channel 255 143 1 0 3"
    by blast
  with a h show ?thesis by blast
qed

end
